theory Spec2Isabelle
  imports Main "HOL-Library.Word"
begin

unbundle bit_operations_syntax

section \<open>Buffers\<close>

text \<open>
  A Node.js \<open>Buffer\<close> is a sequence of bytes.  \<open>Buffer.concat\<close> is list
  concatenation and \<open>buf.slice(start, end)\<close> with non-negative arguments clamps both
  arguments to the length of the buffer and never fails.
\<close>

type_synonym byte = "8 word"
type_synonym buffer = "byte list"

definition slice_buffer :: "buffer \<Rightarrow> nat \<Rightarrow> nat \<Rightarrow> buffer" where
  "slice_buffer buf start fin = take (fin - start) (drop start buf)"

text \<open>\<open>buf.slice(start)\<close>, with the end left out.\<close>

definition slice_buffer_from :: "buffer \<Rightarrow> nat \<Rightarrow> buffer" where
  "slice_buffer_from buf start = drop start buf"

definition xor_bytes :: "buffer \<Rightarrow> buffer \<Rightarrow> buffer" where
  "xor_bytes xs ys = map (\<lambda>(x, y). x XOR y) (zip xs ys)"

section \<open>SHA-256 (\<open>crypto.createHash('sha256')\<close>)\<close>

text \<open>
  The hash of the Node.js \<open>crypto\<close> module, FIPS 180-4: big-endian 32-bit words,
  64-byte blocks, the message padded with \<open>0x80\<close>, zeros and its length in bits.
\<close>

definition be_bytes32 :: "32 word \<Rightarrow> buffer" where
  "be_bytes32 w = [ucast (drop_bit 24 w), ucast (drop_bit 16 w), ucast (drop_bit 8 w), ucast w]"

definition be_bytes64 :: "64 word \<Rightarrow> buffer" where
  "be_bytes64 w = map (\<lambda>i. ucast (drop_bit (8 * (7 - i)) w)) [0..<8]"

fun be_words32 :: "buffer \<Rightarrow> 32 word list" where
  "be_words32 (a # b # c # d # rest) =
     (push_bit 24 (ucast a) OR push_bit 16 (ucast b) OR push_bit 8 (ucast c) OR ucast d)
       # be_words32 rest"
| "be_words32 _ = []"

definition sha_Ch :: "32 word \<Rightarrow> 32 word \<Rightarrow> 32 word \<Rightarrow> 32 word" where
  "sha_Ch x y z = (x AND y) XOR (NOT x AND z)"

definition sha_Maj :: "32 word \<Rightarrow> 32 word \<Rightarrow> 32 word \<Rightarrow> 32 word" where
  "sha_Maj x y z = (x AND y) XOR (x AND z) XOR (y AND z)"

definition sha_Sigma0 :: "32 word \<Rightarrow> 32 word" where
  "sha_Sigma0 x = word_rotr 2 x XOR word_rotr 13 x XOR word_rotr 22 x"

definition sha_Sigma1 :: "32 word \<Rightarrow> 32 word" where
  "sha_Sigma1 x = word_rotr 6 x XOR word_rotr 11 x XOR word_rotr 25 x"

definition sha_sigma0 :: "32 word \<Rightarrow> 32 word" where
  "sha_sigma0 x = word_rotr 7 x XOR word_rotr 18 x XOR drop_bit 3 x"

definition sha_sigma1 :: "32 word \<Rightarrow> 32 word" where
  "sha_sigma1 x = word_rotr 17 x XOR word_rotr 19 x XOR drop_bit 10 x"

definition sha_K :: "32 word list" where
  "sha_K =
   [0x428A2F98, 0x71374491, 0xB5C0FBCF, 0xE9B5DBA5, 0x3956C25B, 0x59F111F1, 0x923F82A4, 0xAB1C5ED5,
    0xD807AA98, 0x12835B01, 0x243185BE, 0x550C7DC3, 0x72BE5D74, 0x80DEB1FE, 0x9BDC06A7, 0xC19BF174,
    0xE49B69C1, 0xEFBE4786, 0x0FC19DC6, 0x240CA1CC, 0x2DE92C6F, 0x4A7484AA, 0x5CB0A9DC, 0x76F988DA,
    0x983E5152, 0xA831C66D, 0xB00327C8, 0xBF597FC7, 0xC6E00BF3, 0xD5A79147, 0x06CA6351, 0x14292967,
    0x27B70A85, 0x2E1B2138, 0x4D2C6DFC, 0x53380D13, 0x650A7354, 0x766A0ABB, 0x81C2C92E, 0x92722C85,
    0xA2BFE8A1, 0xA81A664B, 0xC24B8B70, 0xC76C51A3, 0xD192E819, 0xD6990624, 0xF40E3585, 0x106AA070,
    0x19A4C116, 0x1E376C08, 0x2748774C, 0x34B0BCB5, 0x391C0CB3, 0x4ED8AA4A, 0x5B9CCA4F, 0x682E6FF3,
    0x748F82EE, 0x78A5636F, 0x84C87814, 0x8CC70208, 0x90BEFFFA, 0xA4506CEB, 0xBEF9A3F7, 0xC67178F2]"

definition sha_H0 :: "32 word list" where
  "sha_H0 = [0x6A09E667, 0xBB67AE85, 0x3C6EF372, 0xA54FF53A,
             0x510E527F, 0x9B05688C, 0x1F83D9AB, 0x5BE0CD19]"

definition sha_pad :: "buffer \<Rightarrow> buffer" where
  "sha_pad m = m @ [0x80] @ replicate ((119 - length m mod 64) mod 64) 0
                 @ be_bytes64 (of_nat (8 * length m))"

fun sha_schedule :: "nat \<Rightarrow> 32 word list \<Rightarrow> 32 word list" where
  "sha_schedule 0 w = w"
| "sha_schedule (Suc n) w =
     (let t = length w in
      sha_schedule n (w @ [sha_sigma1 (w ! (t - 2)) + w ! (t - 7)
                           + sha_sigma0 (w ! (t - 15)) + w ! (t - 16)]))"

fun sha_round :: "32 word list \<Rightarrow> 32 word \<times> 32 word \<Rightarrow> 32 word list" where
  "sha_round [a, b, c, d, e, f, g, h] (k, w) =
     (let t1 = h + sha_Sigma1 e + sha_Ch e f g + k + w;
          t2 = sha_Sigma0 a + sha_Maj a b c
      in [t1 + t2, a, b, c, d + t1, e, f, g])"
| "sha_round s _ = s"

definition sha_compress :: "32 word list \<Rightarrow> buffer \<Rightarrow> 32 word list" where
  "sha_compress hs block =
     (let w = sha_schedule 48 (be_words32 block);
          s = foldl sha_round hs (zip sha_K w)
      in map (\<lambda>i. hs ! i + s ! i) [0..<8])"

fun sha_blocks :: "nat \<Rightarrow> 32 word list \<Rightarrow> buffer \<Rightarrow> 32 word list" where
  "sha_blocks 0 hs m = hs"
| "sha_blocks (Suc n) hs m = sha_blocks n (sha_compress hs (take 64 m)) (drop 64 m)"

definition sha256 :: "buffer \<Rightarrow> buffer" where
  "sha256 m =
     (let p = sha_pad m
      in concat (map be_bytes32 (sha_blocks (length p div 64) sha_H0 p)))"

section \<open>AES-256 (FIPS 197)\<close>

text \<open>
  The block cipher behind \<open>'aes-256-gcm'\<close>.  The state is the 16 input bytes in
  column-major order; the S-box is the inverse in GF(2^8) followed by the affine map.
\<close>

definition xtime :: "byte \<Rightarrow> byte" where
  "xtime b = (if bit b 7 then push_bit 1 b XOR 0x1b else push_bit 1 b)"

fun gf_mul_aux :: "nat \<Rightarrow> byte \<Rightarrow> byte \<Rightarrow> byte" where
  "gf_mul_aux 0 a b = 0"
| "gf_mul_aux (Suc n) a b =
     (if bit b 0 then a else 0) XOR gf_mul_aux n (xtime a) (drop_bit 1 b)"

definition gf_mul :: "byte \<Rightarrow> byte \<Rightarrow> byte" where
  "gf_mul a b = gf_mul_aux 8 a b"

fun gf_pow :: "byte \<Rightarrow> nat \<Rightarrow> byte" where
  "gf_pow x 0 = 1"
| "gf_pow x (Suc n) = gf_mul x (gf_pow x n)"

definition sbox :: "byte \<Rightarrow> byte" where
  "sbox b = (let i = gf_pow b 254
             in i XOR word_rotl 1 i XOR word_rotl 2 i XOR word_rotl 3 i XOR word_rotl 4 i
                  XOR 0x63)"

definition chunks :: "nat \<Rightarrow> 'a list \<Rightarrow> 'a list list" where
  "chunks n xs = map (\<lambda>i. take n (drop (n * i) xs)) [0..<length xs div n]"

fun key_expand :: "nat \<Rightarrow> buffer list \<Rightarrow> buffer list" where
  "key_expand 0 w = w"
| "key_expand (Suc n) w =
     (let i = length w;
          temp = w ! (i - 1);
          temp' = (if i mod 8 = 0
                   then xor_bytes (map sbox (rotate1 temp)) [gf_pow 2 (i div 8 - 1), 0, 0, 0]
                   else if i mod 8 = 4 then map sbox temp
                   else temp)
      in key_expand n (w @ [xor_bytes (w ! (i - 8)) temp']))"

definition round_key :: "buffer list \<Rightarrow> nat \<Rightarrow> buffer" where
  "round_key ks r = concat (take 4 (drop (4 * r) ks))"

definition shift_rows :: "buffer \<Rightarrow> buffer" where
  "shift_rows s = map (\<lambda>i. s ! (i mod 4 + 4 * ((i div 4 + i mod 4) mod 4))) [0..<16]"

fun mix_column :: "buffer \<Rightarrow> buffer" where
  "mix_column [a0, a1, a2, a3] =
     [gf_mul 2 a0 XOR gf_mul 3 a1 XOR a2 XOR a3,
      a0 XOR gf_mul 2 a1 XOR gf_mul 3 a2 XOR a3,
      a0 XOR a1 XOR gf_mul 2 a2 XOR gf_mul 3 a3,
      gf_mul 3 a0 XOR a1 XOR a2 XOR gf_mul 2 a3]"
| "mix_column c = c"

definition mix_columns :: "buffer \<Rightarrow> buffer" where
  "mix_columns s = concat (map mix_column (chunks 4 s))"

fun aes_rounds :: "buffer list \<Rightarrow> nat \<Rightarrow> nat \<Rightarrow> buffer \<Rightarrow> buffer" where
  "aes_rounds ks r 0 s = s"
| "aes_rounds ks r (Suc n) s =
     aes_rounds ks (Suc r) n (xor_bytes (mix_columns (shift_rows (map sbox s))) (round_key ks r))"

definition aes_cipher :: "buffer \<Rightarrow> buffer \<Rightarrow> buffer" where
  "aes_cipher key inp =
     (let ks = key_expand 52 (chunks 4 key);
          s = aes_rounds ks 1 13 (xor_bytes inp (round_key ks 0))
      in xor_bytes (shift_rows (map sbox s)) (round_key ks 14))"

type_synonym block = "128 word"

definition bytes_to_block :: "buffer \<Rightarrow> block" where
  "bytes_to_block bs = foldl (\<lambda>acc b. push_bit 8 acc OR ucast b) 0 bs"

definition block_to_bytes :: "block \<Rightarrow> buffer" where
  "block_to_bytes w = map (\<lambda>i. ucast (drop_bit (8 * (15 - i)) w)) [0..<16]"

definition aes256 :: "buffer \<Rightarrow> block \<Rightarrow> block" where
  "aes256 key b = bytes_to_block (aes_cipher key (block_to_bytes b))"

section \<open>Galois/Counter Mode (NIST SP 800-38D)\<close>

fun gf128_loop :: "nat \<Rightarrow> block \<Rightarrow> block \<Rightarrow> block \<Rightarrow> block" where
  "gf128_loop 0 x z v = z"
| "gf128_loop (Suc n) x z v =
     gf128_loop n x (if bit x n then z XOR v else z)
       (if bit v 0 then drop_bit 1 v XOR push_bit 120 0xE1 else drop_bit 1 v)"

definition gf128_mul :: "block \<Rightarrow> block \<Rightarrow> block" where
  "gf128_mul x y = gf128_loop 128 x 0 y"

definition pad16 :: "buffer \<Rightarrow> buffer" where
  "pad16 bs = bs @ replicate ((16 - length bs mod 16) mod 16) 0"

definition ghash :: "block \<Rightarrow> buffer \<Rightarrow> block" where
  "ghash h bs = foldl (\<lambda>y x. gf128_mul (y XOR x) h) 0 (map bytes_to_block (chunks 16 bs))"

definition gcm_H :: "buffer \<Rightarrow> block" where
  "gcm_H key = aes256 key 0"

definition gcm_J0 :: "buffer \<Rightarrow> buffer \<Rightarrow> block" where
  "gcm_J0 key iv =
     (if length iv = 12 then bytes_to_block (iv @ [0, 0, 0, 1])
      else ghash (gcm_H key)
             (pad16 iv @ replicate 8 0 @ be_bytes64 (of_nat (8 * length iv))))"

definition inc32 :: "nat \<Rightarrow> block \<Rightarrow> block" where
  "inc32 i cb = (cb AND NOT (mask 32)) OR ((cb + of_nat i) AND mask 32)"

definition gcm_keystream :: "buffer \<Rightarrow> block \<Rightarrow> nat \<Rightarrow> buffer" where
  "gcm_keystream key j0 n =
     take n (concat (map (\<lambda>i. block_to_bytes (aes256 key (inc32 (Suc i) j0)))
                         [0..<(n + 15) div 16]))"

definition gcm_crypt :: "buffer \<Rightarrow> buffer \<Rightarrow> buffer \<Rightarrow> buffer" where
  "gcm_crypt key iv dat = xor_bytes dat (gcm_keystream key (gcm_J0 key iv) (length dat))"

definition gcm_tag :: "buffer \<Rightarrow> buffer \<Rightarrow> buffer \<Rightarrow> buffer" where
  "gcm_tag key iv ct =
     block_to_bytes
       (ghash (gcm_H key) (pad16 ct @ be_bytes64 0 @ be_bytes64 (of_nat (8 * length ct)))
        XOR aes256 key (gcm_J0 key iv))"

section \<open>JavaScript strings and UTF-8\<close>

text \<open>
  A JavaScript string is a sequence of UTF-16 code units.  Writing a string with the
  \<open>'utf8'\<close> encoding (\<open>cipher.update(plaintext, 'utf8')\<close>) combines a high surrogate
  followed by a low surrogate into one code point and replaces every unpaired surrogate by
  U+FFFD.  \<open>buf.toString('utf8')\<close> decodes the bytes, replacing every maximal ill-formed
  part of the input by U+FFFD; a code point above U+FFFF comes back as a surrogate pair.
\<close>

type_synonym jsstring = "16 word list"

definition is_high :: "16 word \<Rightarrow> bool" where
  "is_high u = (0xD800 \<le> unat u \<and> unat u \<le> 0xDBFF)"

definition is_low :: "16 word \<Rightarrow> bool" where
  "is_low u = (0xDC00 \<le> unat u \<and> unat u \<le> 0xDFFF)"

definition utf8_bytes :: "nat \<Rightarrow> buffer" where
  "utf8_bytes c =
     (if c < 0x80 then [of_nat c]
      else if c < 0x800 then [of_nat (0xC0 + c div 64), of_nat (0x80 + c mod 64)]
      else if c < 0x10000 then
        [of_nat (0xE0 + c div 4096), of_nat (0x80 + c div 64 mod 64), of_nat (0x80 + c mod 64)]
      else
        [of_nat (0xF0 + c div 262144), of_nat (0x80 + c div 4096 mod 64),
         of_nat (0x80 + c div 64 mod 64), of_nat (0x80 + c mod 64)])"

definition pair_code_point :: "16 word \<Rightarrow> 16 word \<Rightarrow> nat" where
  "pair_code_point u v = 0x10000 + (unat u - 0xD800) * 1024 + (unat v - 0xDC00)"

fun utf8_encode :: "jsstring \<Rightarrow> buffer" where
  "utf8_encode [] = []"
| "utf8_encode [u] =
     (if is_high u \<or> is_low u then utf8_bytes 0xFFFD else utf8_bytes (unat u))"
| "utf8_encode (u # v # us) =
     (if is_high u then
        (if is_low v then utf8_bytes (pair_code_point u v) @ utf8_encode us
         else utf8_bytes 0xFFFD @ utf8_encode (v # us))
      else if is_low u then utf8_bytes 0xFFFD @ utf8_encode (v # us)
      else utf8_bytes (unat u) @ utf8_encode (v # us))"

definition units_of :: "nat \<Rightarrow> jsstring" where
  "units_of c =
     (if c < 0x10000 then [of_nat c]
      else [of_nat (0xD800 + (c - 0x10000) div 1024), of_nat (0xDC00 + (c - 0x10000) mod 1024)])"

definition cont :: "byte \<Rightarrow> bool" where
  "cont b = (0x80 \<le> unat b \<and> unat b \<le> 0xBF)"

definition second_ok :: "nat \<Rightarrow> byte \<Rightarrow> bool" where
  "second_ok n c =
     (if n = 0xE0 then 0xA0 \<le> unat c \<and> unat c \<le> 0xBF
      else if n = 0xED then 0x80 \<le> unat c \<and> unat c \<le> 0x9F
      else if n = 0xF0 then 0x90 \<le> unat c \<and> unat c \<le> 0xBF
      else if n = 0xF4 then 0x80 \<le> unat c \<and> unat c \<le> 0x8F
      else cont c)"

definition low6 :: "byte \<Rightarrow> nat" where
  "low6 c = unat c - 0x80"

fun utf8_next :: "buffer \<Rightarrow> jsstring \<times> buffer" where
  "utf8_next [] = ([], [])"
| "utf8_next (b # bs) =
     (let n = unat b in
      if n < 0x80 then ([of_nat n], bs)
      else if 0xC2 \<le> n \<and> n \<le> 0xDF then
        (case bs of
           [] \<Rightarrow> ([0xFFFD], bs)
         | c1 # r1 \<Rightarrow>
             if cont c1 then (units_of ((n - 0xC0) * 64 + low6 c1), r1)
             else ([0xFFFD], bs))
      else if 0xE0 \<le> n \<and> n \<le> 0xEF then
        (case bs of
           [] \<Rightarrow> ([0xFFFD], bs)
         | c1 # r1 \<Rightarrow>
             if second_ok n c1 then
               (case r1 of
                  [] \<Rightarrow> ([0xFFFD], r1)
                | c2 # r2 \<Rightarrow>
                    if cont c2
                    then (units_of ((n - 0xE0) * 4096 + low6 c1 * 64 + low6 c2), r2)
                    else ([0xFFFD], r1))
             else ([0xFFFD], bs))
      else if 0xF0 \<le> n \<and> n \<le> 0xF4 then
        (case bs of
           [] \<Rightarrow> ([0xFFFD], bs)
         | c1 # r1 \<Rightarrow>
             if second_ok n c1 then
               (case r1 of
                  [] \<Rightarrow> ([0xFFFD], r1)
                | c2 # r2 \<Rightarrow>
                    if cont c2 then
                      (case r2 of
                         [] \<Rightarrow> ([0xFFFD], r2)
                       | c3 # r3 \<Rightarrow>
                           if cont c3
                           then (units_of ((n - 0xF0) * 262144 + low6 c1 * 4096
                                            + low6 c2 * 64 + low6 c3), r3)
                           else ([0xFFFD], r2))
                    else ([0xFFFD], r1))
             else ([0xFFFD], bs))
      else ([0xFFFD], bs))"

function utf8_decode :: "buffer \<Rightarrow> jsstring" where
  "utf8_decode [] = []"
| "utf8_decode (b # bs) =
     fst (utf8_next (b # bs)) @ utf8_decode (snd (utf8_next (b # bs)))"
  by pat_completeness auto
termination
  by (relation "measure length") (auto simp: Let_def less_Suc_eq_le split: list.split)

section \<open>The \<open>crypto\<close> module as the program uses it\<close>

text \<open>
  The errors the calls of the program can throw: \<open>createCipheriv\<close> and
  \<open>createDecipheriv\<close> reject an empty initialization vector and a key that is not 32
  bytes long; \<open>setAuthTag\<close> rejects a tag whose length is not 4, 8 or 12 to 16 bytes;
  \<open>decipher.final()\<close> throws "Unsupported state or unable to authenticate data" when the
  tag does not verify; \<open>crypto.diffieHellman\<close> throws when the key agreement fails.
\<close>

datatype error =
    ERR_CRYPTO_INVALID_IV
  | ERR_CRYPTO_INVALID_KEYLEN
  | ERR_CRYPTO_INVALID_AUTH_TAG nat
  | ERR_UNABLE_TO_AUTHENTICATE
  | ERR_CRYPTO_OPERATION_FAILED

text \<open>
  \<open>crypto.randomBytes(n)\<close> draws the next \<open>n\<close> bytes of the random source, which is
  the unbounded sequence of the bytes still to come.
\<close>

type_synonym random_source = "nat \<Rightarrow> byte"

definition randomBytes :: "nat \<Rightarrow> random_source \<Rightarrow> buffer \<times> random_source" where
  "randomBytes n rng = (map rng [0..<n], \<lambda>i. rng (n + i))"

text \<open>
  A \<open>Cipher\<close> or \<open>Decipher\<close> object for \<open>'aes-256-gcm'\<close>: the key, the initialization
  vector, the ciphertext processed so far and the authentication tag (computed by
  \<open>cipher.final()\<close>, or set by \<open>decipher.setAuthTag\<close>).  \<open>update\<close> returns the bytes
  it has processed at once, \<open>final\<close> returns no further bytes; \<open>decipher.final()\<close>
  compares the tag that was set with as many leading bytes of the computed tag.
\<close>

record cipher_state =
  ckey :: buffer
  civ :: buffer
  cdata :: buffer
  ctag :: buffer

definition createCipheriv :: "buffer \<Rightarrow> buffer \<Rightarrow> error + cipher_state" where
  "createCipheriv key iv =
     (if iv = [] then Inl ERR_CRYPTO_INVALID_IV
      else if length key \<noteq> 32 then Inl ERR_CRYPTO_INVALID_KEYLEN
      else Inr \<lparr>ckey = key, civ = iv, cdata = [], ctag = []\<rparr>)"

definition cipher_update :: "cipher_state \<Rightarrow> buffer \<Rightarrow> cipher_state \<times> buffer" where
  "cipher_update c inp =
     (let ks = gcm_keystream (ckey c) (gcm_J0 (ckey c) (civ c)) (length (cdata c) + length inp);
          out = xor_bytes inp (drop (length (cdata c)) ks)
      in (c\<lparr>cdata := cdata c @ out\<rparr>, out))"

definition cipher_final :: "cipher_state \<Rightarrow> cipher_state \<times> buffer" where
  "cipher_final c = (c\<lparr>ctag := gcm_tag (ckey c) (civ c) (cdata c)\<rparr>, [])"

definition getAuthTag :: "cipher_state \<Rightarrow> buffer" where
  "getAuthTag c = ctag c"

definition createDecipheriv :: "buffer \<Rightarrow> buffer \<Rightarrow> error + cipher_state" where
  "createDecipheriv key iv = createCipheriv key iv"

definition setAuthTag :: "cipher_state \<Rightarrow> buffer \<Rightarrow> error + cipher_state" where
  "setAuthTag c tag =
     (if length tag = 4 \<or> length tag = 8 \<or> (12 \<le> length tag \<and> length tag \<le> 16)
      then Inr (c\<lparr>ctag := tag\<rparr>)
      else Inl (ERR_CRYPTO_INVALID_AUTH_TAG (length tag)))"

definition decipher_update :: "cipher_state \<Rightarrow> buffer \<Rightarrow> cipher_state \<times> buffer" where
  "decipher_update c inp =
     (let ks = gcm_keystream (ckey c) (gcm_J0 (ckey c) (civ c)) (length (cdata c) + length inp);
          out = xor_bytes inp (drop (length (cdata c)) ks)
      in (c\<lparr>cdata := cdata c @ inp\<rparr>, out))"

definition decipher_final :: "cipher_state \<Rightarrow> error + buffer" where
  "decipher_final c =
     (if take (length (ctag c)) (gcm_tag (ckey c) (civ c) (cdata c)) = ctag c then Inr []
      else Inl ERR_UNABLE_TO_AUTHENTICATE)"

section \<open>The program: \<open>ecies.js\<close>\<close>

text \<open>
  \<open>crypto.diffieHellman\<close> works on opaque key objects; it is the parameter \<open>dh\<close> of
  the two entry points, taking a private and a public key to the shared secret or to an
  error.  The random source is threaded through the encrypting functions.
\<close>

definition aesEncrypt ::
  "buffer \<Rightarrow> jsstring \<Rightarrow> random_source \<Rightarrow> (error + buffer) \<times> random_source" where
  "aesEncrypt key plaintext rng =
     (let (iv, rng') = randomBytes 12 rng in
      case createCipheriv key iv of
        Inl e \<Rightarrow> (Inl e, rng')
      | Inr cipher \<Rightarrow>
          (let (cipher1, out1) = cipher_update cipher (utf8_encode plaintext);
               (cipher2, out2) = cipher_final cipher1;
               encrypted = out1 @ out2;
               tag = getAuthTag cipher2
           in (Inr (iv @ tag @ encrypted), rng')))"

definition aesDecrypt :: "buffer \<Rightarrow> buffer \<Rightarrow> error + jsstring" where
  "aesDecrypt key message =
     (let iv = slice_buffer message 0 12;
          tag = slice_buffer message 12 28;
          ciphertext = slice_buffer_from message 28
      in case createDecipheriv key iv of
           Inl e \<Rightarrow> Inl e
         | Inr decipher \<Rightarrow>
             (case setAuthTag decipher tag of
                Inl e \<Rightarrow> Inl e
              | Inr decipher1 \<Rightarrow>
                  (let (decipher2, out1) = decipher_update decipher1 ciphertext in
                   case decipher_final decipher2 of
                     Inl e \<Rightarrow> Inl e
                   | Inr out2 \<Rightarrow> Inr (utf8_decode (out1 @ out2)))))"

definition AliceEncrypt ::
  "('priv \<Rightarrow> 'pub \<Rightarrow> error + buffer) \<Rightarrow> 'priv \<Rightarrow> 'pub \<Rightarrow> jsstring \<Rightarrow> random_source
     \<Rightarrow> (error + buffer) \<times> random_source" where
  "AliceEncrypt dh alicePrivateKey bobPublicKey message rng =
     (case dh alicePrivateKey bobPublicKey of
        Inl e \<Rightarrow> (Inl e, rng)
      | Inr sharedSecret \<Rightarrow>
          (let (salt, rng1) = randomBytes 16 rng;
               symmetricKey = sha256 (sharedSecret @ salt)
           in case aesEncrypt symmetricKey message rng1 of
                (Inl e, rng2) \<Rightarrow> (Inl e, rng2)
              | (Inr encryptedMessage, rng2) \<Rightarrow> (Inr (salt @ encryptedMessage), rng2)))"

definition BobDecrypt ::
  "('priv \<Rightarrow> 'pub \<Rightarrow> error + buffer) \<Rightarrow> 'priv \<Rightarrow> 'pub \<Rightarrow> buffer \<Rightarrow> error + jsstring" where
  "BobDecrypt dh bobPrivateKey alicePublicKey encryptedMessage =
     (case dh bobPrivateKey alicePublicKey of
        Inl e \<Rightarrow> Inl e
      | Inr sharedSecret \<Rightarrow>
          (let salt = slice_buffer encryptedMessage 0 16;
               symmetricKey = sha256 (sharedSecret @ salt)
           in aesDecrypt symmetricKey (slice_buffer_from encryptedMessage 16)))"

section \<open>The demonstration run and auxiliary notions\<close>

text \<open>
  The body of the script (lines 91 to 104): Alice encrypts the message for Bob with her
  private key and his public key, Bob decrypts what he received with his private key and
  her public key.  A key pair is the pair of a private and a public key.
\<close>

definition exchange ::
  "('priv \<Rightarrow> 'pub \<Rightarrow> error + buffer) \<Rightarrow> 'priv \<times> 'pub \<Rightarrow> 'priv \<times> 'pub \<Rightarrow> jsstring
     \<Rightarrow> random_source \<Rightarrow> error + jsstring" where
  "exchange dh aliceKeyPair bobKeyPair message rng =
     (case fst (AliceEncrypt dh (fst aliceKeyPair) (snd bobKeyPair) message rng) of
        Inl e \<Rightarrow> Inl e
      | Inr encrypted \<Rightarrow> BobDecrypt dh (fst bobKeyPair) (snd aliceKeyPair) encrypted)"

text \<open>The message of the script, \<open>'Hello world'\<close>, as UTF-16 code units.\<close>

definition hello_world :: jsstring where
  "hello_world = [0x48, 0x65, 0x6C, 0x6C, 0x6F, 0x20, 0x77, 0x6F, 0x72, 0x6C, 0x64]"

text \<open>
  The tag lengths \<open>setAuthTag\<close> accepts, and the strings without unpaired surrogates:
  a high surrogate is followed by a low one, and a low one only occurs there.
  \<open>replace_unpaired\<close> puts U+FFFD in the place of every unpaired surrogate.
\<close>

definition valid_tag_length :: "nat \<Rightarrow> bool" where
  "valid_tag_length n = (n = 4 \<or> n = 8 \<or> (12 \<le> n \<and> n \<le> 16))"

fun well_formed :: "jsstring \<Rightarrow> bool" where
  "well_formed [] = True"
| "well_formed [u] = (\<not> is_high u \<and> \<not> is_low u)"
| "well_formed (u # v # us) =
     (if is_high u then is_low v \<and> well_formed us
      else \<not> is_low u \<and> well_formed (v # us))"

fun replace_unpaired :: "jsstring \<Rightarrow> jsstring" where
  "replace_unpaired [] = []"
| "replace_unpaired [u] = (if is_high u \<or> is_low u then [0xFFFD] else [u])"
| "replace_unpaired (u # v # us) =
     (if is_high u then
        (if is_low v then u # v # replace_unpaired us
         else 0xFFFD # replace_unpaired (v # us))
      else if is_low u then 0xFFFD # replace_unpaired (v # us)
      else u # replace_unpaired (v # us))"

text \<open>
  Instances of the parameters for concrete runs: a Diffie-Hellman exchange in the
  multiplicative group modulo 251 with the generator 6, whose 32-byte secret repeats the
  group element; a key agreement that fails; and the random source that yields the bytes
  0, 1, 2, ...
\<close>

definition example_public :: "nat \<Rightarrow> nat" where
  "example_public a = 6 ^ a mod 251"

definition example_dh :: "nat \<Rightarrow> nat \<Rightarrow> error + buffer" where
  "example_dh a B = Inr (replicate 32 (of_nat (B ^ a mod 251)))"

definition failing_dh :: "nat \<Rightarrow> nat \<Rightarrow> error + buffer" where
  "failing_dh a B = Inl ERR_CRYPTO_OPERATION_FAILED"

definition counting_rng :: random_source where
  "counting_rng i = of_nat i"

text \<open>A tampered tag for the concrete runs: the lowest bit of every byte flipped.\<close>

definition flip_low_bit :: "buffer \<Rightarrow> buffer" where
  "flip_low_bit bs = map (\<lambda>b. b XOR 1) bs"

section \<open>Lengths and the stream cipher\<close>

lemma length_concat_map_const:
  "(\<And>x. x \<in> set xs \<Longrightarrow> length (f x) = k) \<Longrightarrow> length (concat (map f xs)) = k * length xs"
  by (induction xs) auto

lemma length_block_to_bytes [simp]: "length (block_to_bytes w) = 16"
  by (simp add: block_to_bytes_def)

lemma length_be_bytes32 [simp]: "length (be_bytes32 w) = 4"
  by (simp add: be_bytes32_def)

lemma length_sha_compress [simp]: "length (sha_compress hs blk) = 8"
  by (simp add: sha_compress_def Let_def)

lemma length_sha_blocks: "length hs = 8 \<Longrightarrow> length (sha_blocks n hs m) = 8"
  by (induction n arbitrary: hs m) auto

lemma length_sha256 [simp]: "length (sha256 m) = 32"
proof -
  have "length (sha_blocks (length (sha_pad m) div 64) sha_H0 (sha_pad m)) = 8"
    by (rule length_sha_blocks) (simp add: sha_H0_def)
  then show ?thesis
    by (simp add: sha256_def Let_def length_concat_map_const [where k = 4])
qed

lemma length_gcm_keystream [simp]: "length (gcm_keystream key j0 n) = n"
proof -
  have "length (concat (map (\<lambda>i. block_to_bytes (aes256 key (inc32 (Suc i) j0)))
          [0..<(n + 15) div 16])) = 16 * ((n + 15) div 16)"
    by (simp add: length_concat_map_const [where k = 16])
  then show ?thesis
    by (simp add: gcm_keystream_def)
qed

lemma length_xor_bytes [simp]: "length (xor_bytes xs ys) = min (length xs) (length ys)"
  by (simp add: xor_bytes_def)

lemma xor_bytes_cancel:
  "length xs \<le> length ks \<Longrightarrow> xor_bytes (xor_bytes xs ks) ks = xs"
proof (induction xs arbitrary: ks)
  case Nil
  then show ?case by (simp add: xor_bytes_def)
next
  case (Cons x xs)
  then obtain k ks' where ks: "ks = k # ks'" by (cases ks) auto
  with Cons have "xor_bytes (xor_bytes xs ks') ks' = xs" by simp
  then show ?case
    by (simp add: ks xor_bytes_def xor.assoc)
qed

lemma length_gcm_crypt [simp]: "length (gcm_crypt key iv d) = length d"
  by (simp add: gcm_crypt_def)

lemma gcm_crypt_cancel: "gcm_crypt key iv (gcm_crypt key iv d) = d"
  by (simp add: gcm_crypt_def xor_bytes_cancel)

lemma length_gcm_tag [simp]: "length (gcm_tag key iv ct) = 16"
  by (simp add: gcm_tag_def)

lemma length_randomBytes [simp]: "length (fst (randomBytes n rng)) = n"
  by (simp add: randomBytes_def)

section \<open>What the four functions compute\<close>

lemma randomBytes_nonempty: "0 < n \<Longrightarrow> fst (randomBytes n rng) \<noteq> []"
  using length_randomBytes [of n rng] by (metis length_0_conv less_numeral_extra(3))

lemma aesEncrypt_eq:
  assumes "length key = 32"
  shows "aesEncrypt key p rng =
     (let iv = fst (randomBytes 12 rng);
          ct = gcm_crypt key iv (utf8_encode p)
      in (Inr (iv @ gcm_tag key iv ct @ ct), snd (randomBytes 12 rng)))"
  using assms randomBytes_nonempty [of 12 rng]
  by (simp add: aesEncrypt_def createCipheriv_def cipher_update_def
      cipher_final_def getAuthTag_def gcm_crypt_def Let_def split_def)

lemma aesDecrypt_eq:
  "aesDecrypt key m =
     (if m = [] then Inl ERR_CRYPTO_INVALID_IV
      else if length key \<noteq> 32 then Inl ERR_CRYPTO_INVALID_KEYLEN
      else if \<not> valid_tag_length (length (take 16 (drop 12 m)))
        then Inl (ERR_CRYPTO_INVALID_AUTH_TAG (length (take 16 (drop 12 m))))
      else if take (length (take 16 (drop 12 m))) (gcm_tag key (take 12 m) (drop 28 m))
                = take 16 (drop 12 m)
        then Inr (utf8_decode (gcm_crypt key (take 12 m) (drop 28 m)))
      else Inl ERR_UNABLE_TO_AUTHENTICATE)"
  by (simp add: aesDecrypt_def slice_buffer_def slice_buffer_from_def createDecipheriv_def createCipheriv_def
      setAuthTag_def decipher_update_def decipher_final_def gcm_crypt_def Let_def
      valid_tag_length_def)

lemma AliceEncrypt_eq:
  assumes "dh a pb = Inr s"
  shows "AliceEncrypt dh a pb msg rng =
     (let salt = fst (randomBytes 16 rng);
          rng1 = snd (randomBytes 16 rng);
          iv = fst (randomBytes 12 rng1);
          key = sha256 (s @ salt);
          ct = gcm_crypt key iv (utf8_encode msg)
      in (Inr (salt @ iv @ gcm_tag key iv ct @ ct), snd (randomBytes 12 rng1)))"
  using assms
  by (simp add: AliceEncrypt_def aesEncrypt_eq Let_def split_def)

lemma BobDecrypt_eq:
  assumes "dh b pa = Inr s"
  shows "BobDecrypt dh b pa w = aesDecrypt (sha256 (s @ take 16 w)) (drop 16 w)"
  using assms by (simp add: BobDecrypt_def slice_buffer_def slice_buffer_from_def)

section \<open>Decoding what was encoded\<close>

text \<open>
  The decoder reads back the code point of every sequence the encoder writes; on the
  encoding of a string it therefore returns the string with U+FFFD in the place of each
  unpaired surrogate.
\<close>

lemma unat_byte: "k < 256 \<Longrightarrow> unat (of_nat k :: byte) = k"
  by (simp add: unat_of_nat)

lemma unat_unit: "k < 65536 \<Longrightarrow> unat (of_nat k :: 16 word) = k"
  by (simp add: unat_of_nat)

lemma unat_unit_less: "unat (u :: 16 word) < 65536"
  using unsigned_less [of u, where 'a = nat] by simp

lemma next1:
  assumes "c < 0x80"
  shows "utf8_next (utf8_bytes c @ rest) = (units_of c, rest)"
proof -
  define b0 :: byte where "b0 = of_nat c"
  have u0: "unat b0 = c"
    unfolding b0_def using assms by (intro unat_byte) simp
  have bytes: "utf8_bytes c = [b0]"
    using assms by (simp add: utf8_bytes_def b0_def)
  show ?thesis
    unfolding bytes using assms by (simp add: u0 units_of_def)
qed

lemma next2:
  assumes "0x80 \<le> c" "c < 0x800"
  shows "utf8_next (utf8_bytes c @ rest) = (units_of c, rest)"
proof -
  define h where "h = c div 64"
  define l where "l = c mod 64"
  have c: "h * 64 + l = c"
    unfolding h_def l_def by simp
  have bnd: "2 \<le> h" "h < 32" "l < 64"
    using assms unfolding h_def l_def by auto
  define b0 :: byte where "b0 = of_nat (192 + h)"
  define b1 :: byte where "b1 = of_nat (128 + l)"
  have u0: "unat b0 = 192 + h"
    unfolding b0_def using bnd by (intro unat_byte) simp
  have u1: "unat b1 = 128 + l"
    unfolding b1_def using bnd by (intro unat_byte) simp
  have bytes: "utf8_bytes c = [b0, b1]"
    using assms by (simp add: utf8_bytes_def b0_def b1_def h_def l_def)
  show ?thesis
    unfolding bytes using bnd by (simp add: u0 u1 cont_def low6_def c)
qed


lemma next3:
  assumes "0x800 \<le> c" "c < 0x10000" "\<not> (0xD800 \<le> c \<and> c \<le> 0xDFFF)"
  shows "utf8_next (utf8_bytes c @ rest) = (units_of c, rest)"
proof -
  define h where "h = c div 64 div 64"
  define m where "m = c div 64 mod 64"
  define l where "l = c mod 64"
  have e1: "c div 64 * 64 + l = c" and e2: "h * 64 + m = c div 64"
    unfolding h_def m_def l_def by simp_all
  have "c div 4096 = c div (64 * 64)"
    by simp
  then have e3: "c div 4096 = h"
    unfolding h_def by (simp only: div_mult2_eq)
  have c: "h * 4096 + m * 64 + l = c"
    using e1 e2 by linarith
  have bnd: "h < 16" "m < 64" "l < 64"
    using assms c unfolding m_def l_def by simp_all
  have lo: "h = 0 \<Longrightarrow> 32 \<le> m" and hi: "h = 13 \<Longrightarrow> m < 32"
    using assms c bnd by linarith+
  define b0 :: byte where "b0 = of_nat (224 + h)"
  define b1 :: byte where "b1 = of_nat (128 + m)"
  define b2 :: byte where "b2 = of_nat (128 + l)"
  have u0: "unat b0 = 224 + h"
    unfolding b0_def using bnd by (intro unat_byte) simp
  have u1: "unat b1 = 128 + m"
    unfolding b1_def using bnd by (intro unat_byte) simp
  have u2: "unat b2 = 128 + l"
    unfolding b2_def using bnd by (intro unat_byte) simp
  have so: "second_ok (224 + h) b1"
    using bnd lo hi by (auto simp: second_ok_def cont_def u1)
  have bytes: "utf8_bytes c = [b0, b1, b2]"
    using assms by (simp add: utf8_bytes_def b0_def b1_def b2_def e3 m_def l_def)
  show ?thesis
    unfolding bytes using bnd so by (simp add: u0 u1 u2 cont_def low6_def c)
qed

lemma next4:
  assumes "0x10000 \<le> c" "c < 0x110000"
  shows "utf8_next (utf8_bytes c @ rest) = (units_of c, rest)"
proof -
  define g where "g = c div 64 div 64 div 64"
  define h where "h = c div 64 div 64 mod 64"
  define m where "m = c div 64 mod 64"
  define l where "l = c mod 64"
  have e1: "c div 64 * 64 + l = c" and e2: "c div 64 div 64 * 64 + m = c div 64"
    and e3: "g * 64 + h = c div 64 div 64"
    unfolding g_def h_def m_def l_def by simp_all
  have "c div 4096 = c div (64 * 64)" and "c div 262144 = c div (64 * 64 * 64)"
    by simp_all
  then have e4: "c div 262144 = g" "c div 4096 mod 64 = h"
    unfolding g_def h_def by (simp_all only: div_mult2_eq)
  have c: "g * 262144 + h * 4096 + m * 64 + l = c"
    using e1 e2 e3 by linarith
  have bnd: "g < 5" "h < 64" "m < 64" "l < 64"
    using assms c unfolding h_def m_def l_def by simp_all
  have lo: "g = 0 \<Longrightarrow> 16 \<le> h" and hi: "g = 4 \<Longrightarrow> h < 16"
    using assms c bnd by linarith+
  define b0 :: byte where "b0 = of_nat (240 + g)"
  define b1 :: byte where "b1 = of_nat (128 + h)"
  define b2 :: byte where "b2 = of_nat (128 + m)"
  define b3 :: byte where "b3 = of_nat (128 + l)"
  have u0: "unat b0 = 240 + g"
    unfolding b0_def using bnd by (intro unat_byte) simp
  have u1: "unat b1 = 128 + h"
    unfolding b1_def using bnd by (intro unat_byte) simp
  have u2: "unat b2 = 128 + m"
    unfolding b2_def using bnd by (intro unat_byte) simp
  have u3: "unat b3 = 128 + l"
    unfolding b3_def using bnd by (intro unat_byte) simp
  have so: "second_ok (240 + g) b1"
    using bnd lo hi by (auto simp: second_ok_def cont_def u1)
  have bytes: "utf8_bytes c = [b0, b1, b2, b3]"
    using assms
    by (simp add: utf8_bytes_def b0_def b1_def b2_def b3_def e4 m_def l_def)
  show ?thesis
    unfolding bytes using bnd so by (simp add: u0 u1 u2 u3 cont_def low6_def c)
qed

lemma utf8_next_bytes:
  assumes "c < 0x110000" "\<not> (0xD800 \<le> c \<and> c \<le> 0xDFFF)"
  shows "utf8_next (utf8_bytes c @ rest) = (units_of c, rest)"
proof -
  consider "c < 0x80" | "0x80 \<le> c" "c < 0x800" | "0x800 \<le> c" "c < 0x10000" | "0x10000 \<le> c"
    by linarith
  then show ?thesis
    using assms by cases (simp_all add: next1 next2 next3 next4)
qed

lemma utf8_bytes_nonempty: "utf8_bytes c \<noteq> []"
  by (simp add: utf8_bytes_def)

lemma utf8_decode_bytes:
  assumes "c < 0x110000" "\<not> (0xD800 \<le> c \<and> c \<le> 0xDFFF)"
  shows "utf8_decode (utf8_bytes c @ rest) = units_of c @ utf8_decode rest"
proof -
  obtain b bs where eq: "utf8_bytes c @ rest = b # bs"
    using utf8_bytes_nonempty [of c] by (cases "utf8_bytes c") auto
  have "utf8_decode (b # bs) = fst (utf8_next (b # bs)) @ utf8_decode (snd (utf8_next (b # bs)))"
    by simp
  then show ?thesis
    using utf8_next_bytes [OF assms, of rest] by (simp add: eq)
qed

lemma units_of_unit: "units_of (unat u) = [u]"
  using unat_unit_less [of u] by (simp add: units_of_def)

lemma units_of_replacement: "units_of 0xFFFD = [0xFFFD]"
  by (simp add: units_of_def)

lemma pair_code_point_range:
  assumes "is_high u" "is_low v"
  shows "0x10000 \<le> pair_code_point u v" "pair_code_point u v < 0x110000"
  using assms by (auto simp: pair_code_point_def is_high_def is_low_def)

lemma units_of_pair:
  assumes "is_high u" "is_low v"
  shows "units_of (pair_code_point u v) = [u, v]"
proof -
  define a where "a = unat u - 0xD800"
  define b where "b = unat v - 0xDC00"
  have ab: "a < 1024" "b < 1024" "unat u = 0xD800 + a" "unat v = 0xDC00 + b"
    using assms by (auto simp: a_def b_def is_high_def is_low_def)
  have p: "pair_code_point u v - 0x10000 = a * 1024 + b"
    by (simp add: pair_code_point_def a_def b_def)
  have "(a * 1024 + b) div 1024 = a" "(a * 1024 + b) mod 1024 = b"
    using ab by simp_all
  then have "units_of (pair_code_point u v) = [of_nat (unat u), of_nat (unat v)]"
    using pair_code_point_range [OF assms] by (simp add: units_of_def p ab)
  then show ?thesis by simp
qed

lemma not_surrogate_unat:
  "\<not> is_high u \<Longrightarrow> \<not> is_low u \<Longrightarrow> \<not> (0xD800 \<le> unat u \<and> unat u \<le> 0xDFFF)"
  by (auto simp: is_high_def is_low_def)

lemma utf8_decode_unit:
  assumes "\<not> is_high u" "\<not> is_low u"
  shows "utf8_decode (utf8_bytes (unat u) @ rest) = u # utf8_decode rest"
proof -
  have "unat u < 0x110000"
    using unat_unit_less [of u] by simp
  then show ?thesis
    using utf8_decode_bytes [OF _ not_surrogate_unat [OF assms], of rest]
    by (simp add: units_of_unit)
qed

lemma utf8_decode_replacement:
  "utf8_decode (utf8_bytes 0xFFFD @ rest) = 0xFFFD # utf8_decode rest"
  using utf8_decode_bytes [of "0xFFFD" rest] by (simp add: units_of_replacement)

lemma utf8_decode_pair:
  assumes "is_high u" "is_low v"
  shows "utf8_decode (utf8_bytes (pair_code_point u v) @ rest) = u # v # utf8_decode rest"
  using utf8_decode_bytes [of "pair_code_point u v" rest] pair_code_point_range [OF assms]
  by (simp add: units_of_pair [OF assms])

lemma utf8_decode_encode: "utf8_decode (utf8_encode s) = replace_unpaired s"
proof (induction s rule: utf8_encode.induct)
  case 1
  then show ?case by simp
next
  case (2 u)
  then show ?case
    using utf8_decode_unit [of u "[]"] utf8_decode_replacement [of "[]"] by auto
next
  case (3 u v us)
  then show ?case
    by (simp add: utf8_decode_unit utf8_decode_replacement utf8_decode_pair)
qed

lemma high_not_low: "is_high u \<Longrightarrow> \<not> is_low u"
  by (auto simp: is_high_def is_low_def)

lemma replacement_not_surrogate: "\<not> is_high 0xFFFD" "\<not> is_low 0xFFFD"
  by (simp_all add: is_high_def is_low_def)

lemma replace_unpaired_id: "replace_unpaired s = s \<longleftrightarrow> well_formed s"
proof (induction s rule: well_formed.induct)
  case 1
  then show ?case by simp
next
  case (2 u)
  then show ?case using replacement_not_surrogate by auto
next
  case (3 u v us)
  then show ?case using replacement_not_surrogate high_not_low by auto
qed

lemma utf8_roundtrip_iff: "utf8_decode (utf8_encode s) = s \<longleftrightarrow> well_formed s"
  by (simp add: utf8_decode_encode replace_unpaired_id)

section \<open>Messages on the wire\<close>

text \<open>
  The hash at concrete inputs, computed from the definition: the test vector \<open>"abc"\<close> of
  FIPS 180-4, and the key derived from the secret of 32 bytes \<open>0x7E\<close> and the salt
  \<open>00 01 ... 0f\<close>.
\<close>

lemma sha256_abc:
  "sha256 [0x61, 0x62, 0x63] =
     [0xBA, 0x78, 0x16, 0xBF, 0x8F, 0x01, 0xCF, 0xEA, 0x41, 0x41, 0x40, 0xDE, 0x5D, 0xAE, 0x22, 0x23,
      0xB0, 0x03, 0x61, 0xA3, 0x96, 0x17, 0x7A, 0x9C, 0xB4, 0x10, 0xFF, 0x61, 0xF2, 0x00, 0x15, 0xAD]"
  by code_simp

lemma example_key:
  "sha256 (replicate 32 126 @ fst (randomBytes 16 counting_rng)) =
     [0x89, 0xB1, 0xDA, 0x21, 0x4D, 0xBF, 0xC5, 0x9E, 0x9F, 0xC1, 0x22, 0xF3, 0xA1, 0x68, 0x3A, 0x52,
      0xED, 0xE1, 0x73, 0x46, 0xFC, 0x20, 0xF1, 0x91, 0xCE, 0xAC, 0x12, 0xFC, 0x33, 0x34, 0x33, 0xEB]"
  by code_simp

lemma example_dh_alice: "example_dh 3 (example_public 5) = Inr (replicate 32 126)"
  by (simp add: example_dh_def example_public_def)

lemma example_dh_bob: "example_dh 5 (example_public 3) = Inr (replicate 32 126)"
  by (simp add: example_dh_def example_public_def)

lemma BobDecrypt_wire:
  assumes "dh b pa = Inr s" "length salt = 16" "length iv = 12"
  shows "BobDecrypt dh b pa
           (salt @ iv @ gcm_tag (sha256 (s @ salt)) iv ct @ ct)
         = Inr (utf8_decode (gcm_crypt (sha256 (s @ salt)) iv ct))"
proof -
  have "iv \<noteq> []"
    using assms(3) by auto
  then show ?thesis
    using assms by (simp add: BobDecrypt_eq aesDecrypt_eq valid_tag_length_def)
qed

lemma gcm_crypt_empty [simp]: "gcm_crypt key iv [] = []"
  by (simp add: gcm_crypt_def xor_bytes_def)

lemma BobDecrypt_truncated:
  assumes "dh b pa = Inr s" "length salt = 16" "length iv = 12" "valid_tag_length n"
  shows "BobDecrypt dh b pa (salt @ iv @ take n (gcm_tag (sha256 (s @ salt)) iv [])) = Inr []"
proof -
  have "iv \<noteq> []"
    using assms(3) by auto
  moreover have "n \<le> 16"
    using assms(4) by (auto simp: valid_tag_length_def)
  ultimately show ?thesis
    using assms by (simp add: BobDecrypt_eq aesDecrypt_eq min_def)
qed

lemma tampered_tag_rejected:
  assumes "dh b pa = Inr s" "length salt = 16" "length iv = 12" "length tag = 16"
    and "tag \<noteq> gcm_tag (sha256 (s @ salt)) iv ct"
  shows "BobDecrypt dh b pa (salt @ iv @ tag @ ct) = Inl ERR_UNABLE_TO_AUTHENTICATE"
proof -
  have "iv \<noteq> []"
    using assms(3) by auto
  then show ?thesis
    using assms by (simp add: BobDecrypt_eq aesDecrypt_eq valid_tag_length_def)
qed

lemma exchange_eq:
  assumes "dh (fst A) (snd B) = Inr s" "dh (fst B) (snd A) = Inr s"
  shows "exchange dh A B m rng = Inr (utf8_decode (utf8_encode m))"
  using assms
  by (simp add: exchange_def AliceEncrypt_eq Let_def BobDecrypt_wire gcm_crypt_cancel)

lemma well_formed_hello: "well_formed hello_world"
  by (simp add: hello_world_def is_high_def is_low_def)

lemma AliceEncrypt_salt:
  assumes "dh a pb = Inr s" "fst (AliceEncrypt dh a pb m rng) = Inr w"
  shows "slice_buffer w 0 16 = fst (randomBytes 16 rng)"
  using assms by (auto simp: AliceEncrypt_eq Let_def slice_buffer_def)

lemma AliceEncrypt_slices:
  assumes "dh a pb = Inr s"
  shows "\<exists>w. fst (AliceEncrypt dh a pb m rng) = Inr w
           \<and> slice_buffer w 0 16 = fst (randomBytes 16 rng)
           \<and> slice_buffer w 16 28 = fst (randomBytes 12 (snd (randomBytes 16 rng)))"
  using assms by (simp add: AliceEncrypt_eq Let_def slice_buffer_def)

lemma BobDecrypt_AliceEncrypt:
  assumes "dh a pb = Inr s" "dh b pa = Inr s" "fst (AliceEncrypt dh a pb m rng) = Inr w"
  shows "BobDecrypt dh b pa w = Inr (utf8_decode (utf8_encode m))"
  using assms by (auto simp: AliceEncrypt_eq Let_def BobDecrypt_wire gcm_crypt_cancel)

lemma second_draws_differ:
  "fst (randomBytes 16 counting_rng)
     \<noteq> fst (randomBytes 16 (snd (AliceEncrypt example_dh 3 (example_public 5) hello_world counting_rng)))"
proof -
  have "snd (AliceEncrypt example_dh 3 (example_public 5) hello_world counting_rng)
          = snd (randomBytes 12 (snd (randomBytes 16 counting_rng)))"
    using AliceEncrypt_eq [of example_dh 3 "example_public 5" "replicate 32 126"
        hello_world counting_rng] example_dh_alice
    by (simp add: Let_def)
  then show ?thesis
    by (simp add: randomBytes_def counting_rng_def upt_rec)
qed

lemma BobDecrypt_success:
  assumes "BobDecrypt dh b pa w = Inr p"
  shows "\<exists>s. dh b pa = Inr s
           \<and> take (length (slice_buffer w 28 44))
                (gcm_tag (sha256 (s @ slice_buffer w 0 16)) (slice_buffer w 16 28) (slice_buffer_from w 44))
               = slice_buffer w 28 44
           \<and> p = utf8_decode (gcm_crypt (sha256 (s @ slice_buffer w 0 16)) (slice_buffer w 16 28)
                                (slice_buffer_from w 44))"
proof (cases "dh b pa")
  case (Inl e)
  then show ?thesis using assms by (simp add: BobDecrypt_def)
next
  case (Inr s)
  have sl: "take 12 (drop 16 w) = slice_buffer w 16 28" "take 16 (drop 12 (drop 16 w)) = slice_buffer w 28 44"
    "drop 28 (drop 16 w) = slice_buffer_from w 44" "take 16 w = slice_buffer w 0 16"
    by (simp_all add: slice_buffer_def slice_buffer_from_def)
  have "aesDecrypt (sha256 (s @ take 16 w)) (drop 16 w) = Inr p"
    using assms Inr by (simp add: BobDecrypt_eq)
  then show ?thesis
    unfolding aesDecrypt_eq sl using Inr by (simp split: if_splits)
qed

lemma flip_low_bit_neq: "xs \<noteq> [] \<Longrightarrow> flip_low_bit xs \<noteq> xs"
proof (cases xs)
  case Nil
  then show "xs \<noteq> [] \<Longrightarrow> flip_low_bit xs \<noteq> xs" by simp
next
  case (Cons b bs)
  have "b XOR 1 \<noteq> b"
  proof
    assume "b XOR 1 = b"
    then have "b XOR (b XOR 1) = b XOR b" by simp
    then show False by (simp add: bit.xor_left_self)
  qed
  then show "flip_low_bit xs \<noteq> xs"
    by (simp add: Cons flip_low_bit_def)
qed

lemma length_flip_low_bit [simp]: "length (flip_low_bit xs) = length xs"
  by (simp add: flip_low_bit_def)

lemma failing_dh_eq: "failing_dh 1 2 = Inl ERR_CRYPTO_OPERATION_FAILED"
  by (simp add: failing_dh_def)

lemma tampered_tag_neq:
  "gcm_tag key iv ct \<noteq> flip_low_bit (gcm_tag key iv ct)"
  using flip_low_bit_neq [of "gcm_tag key iv ct"] length_gcm_tag [of key iv ct]
  by (metis length_0_conv zero_neq_numeral)

section \<open>The claims\<close>

text \<open>
  C1 (as amended).  Round trip: for all key pairs of Alice and Bob on which the two key
  agreements succeed with the same shared secret, and every message without unpaired
  surrogates, Bob's decryption of what Alice's encryption produced returns exactly the
  message, whatever the random draws.
\<close>

theorem roundtrip_well_formed:
  assumes "dh (fst A) (snd B) = Inr s" "dh (fst B) (snd A) = Inr s" "well_formed P"
  shows "exchange dh A B P rng = Inr P"
  using assms by (simp add: exchange_eq utf8_roundtrip_iff)

theorem roundtrip_well_formed_witness:
  "example_dh (fst (3, example_public 3)) (snd (5, example_public 5)) = Inr (replicate 32 126)
   \<and> example_dh (fst (5, example_public 5)) (snd (3, example_public 3)) = Inr (replicate 32 126)
   \<and> well_formed hello_world
   \<and> exchange example_dh (3, example_public 3) (5, example_public 5) hello_world counting_rng
       = Inr hello_world"
  using roundtrip_well_formed [of example_dh "(3, example_public 3)" "(5, example_public 5)"
      "replicate 32 126" hello_world counting_rng]
    example_dh_alice example_dh_bob well_formed_hello
  by simp

text \<open>
  The claim as first stated, for every message, fails: the message made of the single
  unpaired surrogate U+D800 comes back as U+FFFD.
\<close>

theorem roundtrip_unpaired_surrogate:
  "exchange example_dh (3, example_public 3) (5, example_public 5) [0xD800] counting_rng
     = Inr [0xFFFD]
   \<and> exchange example_dh (3, example_public 3) (5, example_public 5) [0xD800] counting_rng
     \<noteq> Inr [0xD800]"
proof -
  have "utf8_decode (utf8_encode [0xD800]) = [0xFFFD]"
    unfolding utf8_decode_encode by (simp add: is_high_def)
  then show ?thesis
    using exchange_eq [of example_dh "(3, example_public 3)" "(5, example_public 5)"
        "replicate 32 126" "[0xD800]" counting_rng]
      example_dh_alice example_dh_bob
    by simp
qed

text \<open>
  C2.  Wire format: when the key agreement succeeds, what \<open>AliceEncrypt\<close> returns is the
  16-byte salt (the first draw), the 12-byte nonce (the second draw), the 16-byte
  authentication tag and the ciphertext, in this order; the ciphertext is as long as the
  UTF-8 encoding of the message; for \<open>'Hello world'\<close> the whole is 55 bytes long.
\<close>

theorem AliceEncrypt_wire_format:
  assumes "dh alicePrivateKey bobPublicKey = Inr sharedSecret"
  shows "let salt = fst (randomBytes 16 rng);
             nonce = fst (randomBytes 12 (snd (randomBytes 16 rng)));
             key = sha256 (sharedSecret @ salt);
             ciphertext = gcm_crypt key nonce (utf8_encode message);
             tag = gcm_tag key nonce ciphertext;
             wire = salt @ nonce @ tag @ ciphertext
         in fst (AliceEncrypt dh alicePrivateKey bobPublicKey message rng) = Inr wire
            \<and> length salt = 16 \<and> length nonce = 12 \<and> length tag = 16
            \<and> length ciphertext = length (utf8_encode message)
            \<and> length wire = 44 + length (utf8_encode message)
            \<and> (message = hello_world \<longrightarrow> length wire = 55)"
proof -
  have "length (utf8_encode hello_world) = 11"
    by (simp add: hello_world_def is_high_def is_low_def utf8_bytes_def)
  then show ?thesis
    using assms by (simp add: AliceEncrypt_eq Let_def)
qed

theorem AliceEncrypt_wire_format_witness:
  "example_dh 3 (example_public 5) = Inr (replicate 32 126)
   \<and> map_sum id length (fst (AliceEncrypt example_dh 3 (example_public 5) hello_world counting_rng))
       = Inr 55"
  using AliceEncrypt_wire_format [of example_dh 3 "example_public 5" "replicate 32 126"
      counting_rng hello_world] example_dh_alice
  by (simp add: Let_def)

text \<open>
  C4 (as amended).  \<open>BobDecrypt\<close> makes no length check of its own and has no error for a
  malformed message.  When the key agreement succeeds and the input is shorter than 44
  bytes: an input of at most 16 bytes leaves no initialization vector and fails with the
  invalid-IV error; otherwise the tag is what follows byte 28, and a tag of 0 to 3, 5 to 7
  or 9 to 11 bytes fails with the invalid-tag-length error; a tag of 4, 8 or 12 to 15 bytes
  is compared with the first bytes of the tag computed over the empty ciphertext, and the
  call returns the empty string when they agree and fails with the authentication error
  when they do not.
\<close>

theorem short_message_behaviour:
  assumes "dh bobPrivateKey alicePublicKey = Inr s" "length wire < 44"
  shows "(length wire \<le> 16 \<longrightarrow>
            BobDecrypt dh bobPrivateKey alicePublicKey wire = Inl ERR_CRYPTO_INVALID_IV)
         \<and> (16 < length wire \<longrightarrow> \<not> valid_tag_length (length wire - 28) \<longrightarrow>
            BobDecrypt dh bobPrivateKey alicePublicKey wire
              = Inl (ERR_CRYPTO_INVALID_AUTH_TAG (length wire - 28)))
         \<and> (valid_tag_length (length wire - 28) \<longrightarrow>
            BobDecrypt dh bobPrivateKey alicePublicKey wire
              = (if take (length wire - 28)
                      (gcm_tag (sha256 (s @ slice_buffer wire 0 16)) (slice_buffer wire 16 28) [])
                    = slice_buffer_from wire 28
                 then Inr [] else Inl ERR_UNABLE_TO_AUTHENTICATE))"
proof -
  have bob: "BobDecrypt dh bobPrivateKey alicePublicKey wire
      = aesDecrypt (sha256 (s @ take 16 wire)) (drop 16 wire)"
    using assms(1) by (simp add: BobDecrypt_eq)
  have sl: "take 12 (drop 16 wire) = slice_buffer wire 16 28" "take 16 wire = slice_buffer wire 0 16"
    by (simp_all add: slice_buffer_def)
  have tag: "take 16 (drop 12 (drop 16 wire)) = drop 28 wire"
    using assms(2) by simp
  have ct: "drop 28 (drop 16 wire) = []"
    using assms(2) by simp
  have len: "length (drop 28 wire) = length wire - 28"
    by simp
  show ?thesis
    unfolding bob aesDecrypt_eq tag ct len sl
    by (auto simp: valid_tag_length_def slice_buffer_from_def)
qed

theorem short_message_behaviour_witness:
  "example_dh 5 (example_public 3) = Inr (replicate 32 126)
   \<and> BobDecrypt example_dh 5 (example_public 3) [] = Inl ERR_CRYPTO_INVALID_IV
   \<and> BobDecrypt example_dh 5 (example_public 3) (replicate 33 0)
       = Inl (ERR_CRYPTO_INVALID_AUTH_TAG 5)
   \<and> BobDecrypt example_dh 5 (example_public 3)
         (replicate 16 0 @ replicate 12 0
            @ take 15 (gcm_tag (sha256 (replicate 32 126 @ replicate 16 0)) (replicate 12 0) []))
       = Inr []"
proof -
  let ?w = "replicate 16 0 @ replicate 12 0
            @ take 15 (gcm_tag (sha256 (replicate 32 126 @ replicate 16 0)) (replicate 12 0) [])"
  have a: "BobDecrypt example_dh 5 (example_public 3) [] = Inl ERR_CRYPTO_INVALID_IV"
    using short_message_behaviour [of example_dh 5 "example_public 3" "replicate 32 126" "[]"]
      example_dh_bob
    by simp
  have b: "BobDecrypt example_dh 5 (example_public 3) (replicate 33 0)
       = Inl (ERR_CRYPTO_INVALID_AUTH_TAG 5)"
    using short_message_behaviour [of example_dh 5 "example_public 3" "replicate 32 126"
        "replicate 33 0"] example_dh_bob
    by (simp add: valid_tag_length_def)
  have "length ?w = 43"
    by simp
  moreover have "slice_buffer ?w 0 16 = replicate 16 0" "slice_buffer ?w 16 28 = replicate 12 0"
    "slice_buffer_from ?w 28
       = take 15 (gcm_tag (sha256 (replicate 32 126 @ replicate 16 0)) (replicate 12 0) [])"
    by (simp_all add: slice_buffer_def slice_buffer_from_def)
  ultimately have c: "BobDecrypt example_dh 5 (example_public 3) ?w = Inr []"
    using short_message_behaviour [of example_dh 5 "example_public 3" "replicate 32 126" ?w]
      example_dh_bob
    by (simp add: valid_tag_length_def)
  show ?thesis
    using a b c example_dh_bob by simp
qed

text \<open>
  The claim as first stated fails: the 44-byte message for the empty plaintext, cut by its
  last byte, has 43 bytes and is accepted; Bob obtains the empty plaintext.
\<close>

theorem truncated_message_accepted:
  "map_sum id (length \<circ> butlast)
      (fst (AliceEncrypt example_dh 3 (example_public 5) [] counting_rng)) = Inr 43
   \<and> map_sum id (BobDecrypt example_dh 5 (example_public 3) \<circ> butlast)
      (fst (AliceEncrypt example_dh 3 (example_public 5) [] counting_rng)) = Inr (Inr [])"
proof -
  let ?salt = "fst (randomBytes 16 counting_rng)"
  let ?iv = "fst (randomBytes 12 (snd (randomBytes 16 counting_rng)))"
  let ?tag = "gcm_tag (sha256 (replicate 32 126 @ ?salt)) ?iv []"
  have w: "fst (AliceEncrypt example_dh 3 (example_public 5) [] counting_rng)
      = Inr (?salt @ ?iv @ ?tag)"
    using AliceEncrypt_eq [of example_dh 3 "example_public 5" "replicate 32 126" "[]" counting_rng]
      example_dh_alice
    by (simp add: Let_def)
  have "?tag \<noteq> []"
    using length_gcm_tag [of "sha256 (replicate 32 126 @ ?salt)" ?iv "[]"]
    by (metis length_0_conv zero_neq_numeral)
  then have b: "butlast (?salt @ ?iv @ ?tag) = ?salt @ ?iv @ take 15 ?tag"
    by (simp add: butlast_append butlast_conv_take)
  have d: "BobDecrypt example_dh 5 (example_public 3) (?salt @ ?iv @ take 15 ?tag) = Inr []"
    using BobDecrypt_truncated [of example_dh 5 "example_public 3" "replicate 32 126" ?salt ?iv 15]
      example_dh_bob
    by (simp add: valid_tag_length_def)
  show ?thesis
    unfolding w using d by (simp add: b)
qed

text \<open>
  C5.  Key derivation: the symmetric key is the SHA-256 hash of the shared secret followed
  by the salt, and is 32 bytes long; Alice hands \<open>aesEncrypt\<close> the key derived from her
  secret and the salt she drew, Bob hands \<open>aesDecrypt\<close> the key derived from his secret and
  the first 16 bytes of the message; these 16 bytes are the salt Alice drew, so with the same
  secret both derive the same key.  The key is a function of the secret and the salt alone.
  The hash is SHA-256: from the secret of 32 bytes \<open>0x7E\<close> and the salt \<open>00 01 ... 0f\<close>
  the key is \<open>89 b1 da 21 ... 33 eb\<close>, and the hash of \<open>"abc"\<close> is the value that
  FIPS 180-4 gives.
\<close>

theorem key_derivation:
  "length (sha256 (sharedSecret @ salt)) = 32
   \<and> (dh alicePrivateKey bobPublicKey = Inr sharedSecret \<longrightarrow>
        AliceEncrypt dh alicePrivateKey bobPublicKey message rng =
          (case aesEncrypt (sha256 (sharedSecret @ fst (randomBytes 16 rng))) message
                  (snd (randomBytes 16 rng)) of
             (Inl e, rng2) \<Rightarrow> (Inl e, rng2)
           | (Inr encryptedMessage, rng2) \<Rightarrow>
               (Inr (fst (randomBytes 16 rng) @ encryptedMessage), rng2)))
   \<and> (dh bobPrivateKey alicePublicKey = Inr sharedSecret \<longrightarrow>
        BobDecrypt dh bobPrivateKey alicePublicKey wire =
          aesDecrypt (sha256 (sharedSecret @ slice_buffer wire 0 16)) (slice_buffer_from wire 16))
   \<and> (dh alicePrivateKey bobPublicKey = Inr sharedSecret \<longrightarrow>
        fst (AliceEncrypt dh alicePrivateKey bobPublicKey message rng) = Inr wire \<longrightarrow>
        sha256 (sharedSecret @ slice_buffer wire 0 16)
          = sha256 (sharedSecret @ fst (randomBytes 16 rng)))
   \<and> (sharedSecret = sharedSecret' \<and> salt = salt' \<longrightarrow>
        sha256 (sharedSecret @ salt) = sha256 (sharedSecret' @ salt'))
   \<and> (sharedSecret = replicate 32 126 \<and> salt = fst (randomBytes 16 counting_rng) \<longrightarrow>
        sha256 (sharedSecret @ salt) =
          [0x89, 0xB1, 0xDA, 0x21, 0x4D, 0xBF, 0xC5, 0x9E, 0x9F, 0xC1, 0x22, 0xF3, 0xA1, 0x68,
           0x3A, 0x52, 0xED, 0xE1, 0x73, 0x46, 0xFC, 0x20, 0xF1, 0x91, 0xCE, 0xAC, 0x12, 0xFC,
           0x33, 0x34, 0x33, 0xEB])
   \<and> sha256 [0x61, 0x62, 0x63] =
         [0xBA, 0x78, 0x16, 0xBF, 0x8F, 0x01, 0xCF, 0xEA, 0x41, 0x41, 0x40, 0xDE, 0x5D, 0xAE,
          0x22, 0x23, 0xB0, 0x03, 0x61, 0xA3, 0x96, 0x17, 0x7A, 0x9C, 0xB4, 0x10, 0xFF, 0x61,
          0xF2, 0x00, 0x15, 0xAD]"
proof -
  have 1: "dh alicePrivateKey bobPublicKey = Inr sharedSecret \<Longrightarrow>
        AliceEncrypt dh alicePrivateKey bobPublicKey message rng =
          (case aesEncrypt (sha256 (sharedSecret @ fst (randomBytes 16 rng))) message
                  (snd (randomBytes 16 rng)) of
             (Inl e, rng2) \<Rightarrow> (Inl e, rng2)
           | (Inr encryptedMessage, rng2) \<Rightarrow>
               (Inr (fst (randomBytes 16 rng) @ encryptedMessage), rng2))"
    by (simp add: AliceEncrypt_def Let_def split_def)
  have 2: "dh bobPrivateKey alicePublicKey = Inr sharedSecret \<Longrightarrow>
        BobDecrypt dh bobPrivateKey alicePublicKey wire =
          aesDecrypt (sha256 (sharedSecret @ slice_buffer wire 0 16)) (slice_buffer_from wire 16)"
    by (simp add: BobDecrypt_def)
  have 3: "dh alicePrivateKey bobPublicKey = Inr sharedSecret \<Longrightarrow>
        fst (AliceEncrypt dh alicePrivateKey bobPublicKey message rng) = Inr wire \<Longrightarrow>
        slice_buffer wire 0 16 = fst (randomBytes 16 rng)"
    by (rule AliceEncrypt_salt)
  show ?thesis
    using 1 2 3 example_key sha256_abc by simp
qed

theorem key_derivation_witness:
  "example_dh 3 (example_public 5) = Inr (replicate 32 126)
   \<and> example_dh 5 (example_public 3) = Inr (replicate 32 126)
   \<and> length (sha256 (replicate 32 126 @ fst (randomBytes 16 counting_rng))) = 32
   \<and> sha256 (replicate 32 126 @ fst (randomBytes 16 counting_rng)) =
         [0x89, 0xB1, 0xDA, 0x21, 0x4D, 0xBF, 0xC5, 0x9E, 0x9F, 0xC1, 0x22, 0xF3, 0xA1, 0x68,
            0x3A, 0x52, 0xED, 0xE1, 0x73, 0x46, 0xFC, 0x20, 0xF1, 0x91, 0xCE, 0xAC, 0x12, 0xFC,
            0x33, 0x34, 0x33, 0xEB]
   \<and> (\<exists>wire. fst (AliceEncrypt example_dh 3 (example_public 5) hello_world counting_rng)
                = Inr wire
        \<and> sha256 (replicate 32 126 @ slice_buffer wire 0 16) =
            [0x89, 0xB1, 0xDA, 0x21, 0x4D, 0xBF, 0xC5, 0x9E, 0x9F, 0xC1, 0x22, 0xF3, 0xA1, 0x68,
            0x3A, 0x52, 0xED, 0xE1, 0x73, 0x46, 0xFC, 0x20, 0xF1, 0x91, 0xCE, 0xAC, 0x12, 0xFC,
            0x33, 0x34, 0x33, 0xEB]
        \<and> BobDecrypt example_dh 5 (example_public 3) wire =
            aesDecrypt
              [0x89, 0xB1, 0xDA, 0x21, 0x4D, 0xBF, 0xC5, 0x9E, 0x9F, 0xC1, 0x22, 0xF3, 0xA1, 0x68,
            0x3A, 0x52, 0xED, 0xE1, 0x73, 0x46, 0xFC, 0x20, 0xF1, 0x91, 0xCE, 0xAC, 0x12, 0xFC,
            0x33, 0x34, 0x33, 0xEB]
              (slice_buffer_from wire 16))"
proof -
  let ?salt = "fst (randomBytes 16 counting_rng)"
  obtain wire where w: "fst (AliceEncrypt example_dh 3 (example_public 5) hello_world counting_rng)
      = Inr wire"
    using AliceEncrypt_eq [of example_dh 3 "example_public 5" "replicate 32 126"
        hello_world counting_rng] example_dh_alice
    by (simp add: Let_def)
  have k: "sha256 (replicate 32 126 @ ?salt) =
         [0x89, 0xB1, 0xDA, 0x21, 0x4D, 0xBF, 0xC5, 0x9E, 0x9F, 0xC1, 0x22, 0xF3, 0xA1, 0x68,
            0x3A, 0x52, 0xED, 0xE1, 0x73, 0x46, 0xFC, 0x20, 0xF1, 0x91, 0xCE, 0xAC, 0x12, 0xFC,
            0x33, 0x34, 0x33, 0xEB]"
    using key_derivation [of "replicate 32 126" ?salt example_dh 3 "example_public 5"
        hello_world counting_rng 5 "example_public 3" wire "[]" "[]"]
    by blast
  have l: "length (sha256 (replicate 32 126 @ ?salt)) = 32"
    using key_derivation [of "replicate 32 126" ?salt example_dh 3 "example_public 5"
        hello_world counting_rng 5 "example_public 3" wire "[]" "[]"]
    by blast
  have a: "sha256 (replicate 32 126 @ slice_buffer wire 0 16)
            = sha256 (replicate 32 126 @ ?salt)"
    using key_derivation [of "replicate 32 126" "[]" example_dh 3 "example_public 5"
        hello_world counting_rng 5 "example_public 3" wire "[]" "[]"] example_dh_alice w
    by blast
  have b: "BobDecrypt example_dh 5 (example_public 3) wire
            = aesDecrypt (sha256 (replicate 32 126 @ slice_buffer wire 0 16))
                (slice_buffer_from wire 16)"
    using key_derivation [of "replicate 32 126" "[]" example_dh 5 "example_public 3"
        hello_world counting_rng 5 "example_public 3" wire "[]" "[]"] example_dh_bob
    by blast
  show ?thesis
    using w a b k l example_dh_alice example_dh_bob by (simp only:) blast
qed

text \<open>
  C7.  Two encryptions of the same message under the same keys, with the random sources
  \<open>rng1\<close> and \<open>rng2\<close>: the salt and nonce fields of each message are the draws of its run,
  so the two messages differ as soon as the salts or the nonces drawn differ; and Bob
  obtains the same plaintext from both.
\<close>

theorem fresh_salt_and_nonce:
  assumes "dh alicePrivateKey bobPublicKey = Inr s" "dh bobPrivateKey alicePublicKey = Inr s"
  shows "\<exists>w1 w2.
           fst (AliceEncrypt dh alicePrivateKey bobPublicKey message rng1) = Inr w1
         \<and> fst (AliceEncrypt dh alicePrivateKey bobPublicKey message rng2) = Inr w2
         \<and> slice_buffer w1 0 16 = fst (randomBytes 16 rng1)
         \<and> slice_buffer w2 0 16 = fst (randomBytes 16 rng2)
         \<and> slice_buffer w1 16 28 = fst (randomBytes 12 (snd (randomBytes 16 rng1)))
         \<and> slice_buffer w2 16 28 = fst (randomBytes 12 (snd (randomBytes 16 rng2)))
         \<and> (fst (randomBytes 16 rng1) \<noteq> fst (randomBytes 16 rng2)
              \<or> fst (randomBytes 12 (snd (randomBytes 16 rng1)))
                  \<noteq> fst (randomBytes 12 (snd (randomBytes 16 rng2)))
             \<longrightarrow> w1 \<noteq> w2)
         \<and> BobDecrypt dh bobPrivateKey alicePublicKey w1 = Inr (utf8_decode (utf8_encode message))
         \<and> BobDecrypt dh bobPrivateKey alicePublicKey w2 = Inr (utf8_decode (utf8_encode message))"
proof -
  obtain w1 where w1: "fst (AliceEncrypt dh alicePrivateKey bobPublicKey message rng1) = Inr w1"
    "slice_buffer w1 0 16 = fst (randomBytes 16 rng1)"
    "slice_buffer w1 16 28 = fst (randomBytes 12 (snd (randomBytes 16 rng1)))"
    using AliceEncrypt_slices [of dh alicePrivateKey bobPublicKey s message rng1] assms(1)
    by blast
  obtain w2 where w2: "fst (AliceEncrypt dh alicePrivateKey bobPublicKey message rng2) = Inr w2"
    "slice_buffer w2 0 16 = fst (randomBytes 16 rng2)"
    "slice_buffer w2 16 28 = fst (randomBytes 12 (snd (randomBytes 16 rng2)))"
    using AliceEncrypt_slices [of dh alicePrivateKey bobPublicKey s message rng2] assms(1)
    by blast
  have d1: "BobDecrypt dh bobPrivateKey alicePublicKey w1 = Inr (utf8_decode (utf8_encode message))"
    using assms w1(1) by (rule BobDecrypt_AliceEncrypt)
  have d2: "BobDecrypt dh bobPrivateKey alicePublicKey w2 = Inr (utf8_decode (utf8_encode message))"
    using assms w2(1) by (rule BobDecrypt_AliceEncrypt)
  have ne: "fst (randomBytes 16 rng1) \<noteq> fst (randomBytes 16 rng2)
              \<or> fst (randomBytes 12 (snd (randomBytes 16 rng1)))
                  \<noteq> fst (randomBytes 12 (snd (randomBytes 16 rng2)))
             \<longrightarrow> w1 \<noteq> w2"
    using w1(2,3) w2(2,3) by metis
  show ?thesis
    using w1 w2 d1 d2 ne by blast
qed

theorem fresh_salt_and_nonce_witness:
  "example_dh 3 (example_public 5) = Inr (replicate 32 126)
   \<and> example_dh 5 (example_public 3) = Inr (replicate 32 126)
   \<and> (\<exists>w1 w2.
         fst (AliceEncrypt example_dh 3 (example_public 5) hello_world counting_rng) = Inr w1
       \<and> fst (AliceEncrypt example_dh 3 (example_public 5) hello_world
               (snd (AliceEncrypt example_dh 3 (example_public 5) hello_world counting_rng)))
           = Inr w2
       \<and> w1 \<noteq> w2
       \<and> BobDecrypt example_dh 5 (example_public 3) w1 = Inr hello_world
       \<and> BobDecrypt example_dh 5 (example_public 3) w2 = Inr hello_world)"
proof -
  have "utf8_decode (utf8_encode hello_world) = hello_world"
    using well_formed_hello by (simp add: utf8_roundtrip_iff)
  then show ?thesis
    using fresh_salt_and_nonce [of example_dh 3 "example_public 5" "replicate 32 126"
        5 "example_public 3" hello_world counting_rng
        "snd (AliceEncrypt example_dh 3 (example_public 5) hello_world counting_rng)"]
      example_dh_alice example_dh_bob second_draws_differ
    by (simp only:) blast
qed

text \<open>
  C9.  Errors pass through unchanged and no plaintext comes with them: an error of the key
  agreement is the result of \<open>BobDecrypt\<close>; otherwise the result is that of \<open>aesDecrypt\<close>
  under the derived key, where an error of \<open>createDecipheriv\<close>, of \<open>setAuthTag\<close> or of
  \<open>decipher.final()\<close> is the result, also when \<open>decipher.update\<close> has already produced
  bytes.  A plaintext is returned only if the key agreement succeeded and the tag of the
  message verified against the whole ciphertext, and it is the decoding of the whole
  decrypted ciphertext.
\<close>

theorem error_propagation:
  "(dh bobPrivateKey alicePublicKey = Inl e \<longrightarrow>
      BobDecrypt dh bobPrivateKey alicePublicKey wire = Inl e)
   \<and> (dh bobPrivateKey alicePublicKey = Inr s \<longrightarrow>
      BobDecrypt dh bobPrivateKey alicePublicKey wire
        = aesDecrypt (sha256 (s @ slice_buffer wire 0 16)) (slice_buffer_from wire 16))
   \<and> (createDecipheriv key (slice_buffer m 0 12) = Inl e \<longrightarrow> aesDecrypt key m = Inl e)
   \<and> (createDecipheriv key (slice_buffer m 0 12) = Inr d \<longrightarrow> setAuthTag d (slice_buffer m 12 28) = Inl e \<longrightarrow>
      aesDecrypt key m = Inl e)
   \<and> (createDecipheriv key (slice_buffer m 0 12) = Inr d \<longrightarrow> setAuthTag d (slice_buffer m 12 28) = Inr d1 \<longrightarrow>
      decipher_final (fst (decipher_update d1 (slice_buffer_from m 28))) = Inl e \<longrightarrow>
      aesDecrypt key m = Inl e)
   \<and> (BobDecrypt dh bobPrivateKey alicePublicKey wire = Inr p \<longrightarrow>
      (\<exists>s'. dh bobPrivateKey alicePublicKey = Inr s'
         \<and> take (length (slice_buffer wire 28 44))
              (gcm_tag (sha256 (s' @ slice_buffer wire 0 16)) (slice_buffer wire 16 28) (slice_buffer_from wire 44))
             = slice_buffer wire 28 44
         \<and> p = utf8_decode (gcm_crypt (sha256 (s' @ slice_buffer wire 0 16)) (slice_buffer wire 16 28)
                              (slice_buffer_from wire 44))))"
proof -
  have 1: "dh bobPrivateKey alicePublicKey = Inl e \<Longrightarrow>
      BobDecrypt dh bobPrivateKey alicePublicKey wire = Inl e"
    by (simp add: BobDecrypt_def)
  have 2: "dh bobPrivateKey alicePublicKey = Inr s \<Longrightarrow>
      BobDecrypt dh bobPrivateKey alicePublicKey wire
        = aesDecrypt (sha256 (s @ slice_buffer wire 0 16)) (slice_buffer_from wire 16)"
    by (simp add: BobDecrypt_def)
  have 3: "createDecipheriv key (slice_buffer m 0 12) = Inl e \<Longrightarrow> aesDecrypt key m = Inl e"
    by (simp add: aesDecrypt_def Let_def)
  have 4: "createDecipheriv key (slice_buffer m 0 12) = Inr d \<Longrightarrow> setAuthTag d (slice_buffer m 12 28) = Inl e \<Longrightarrow>
      aesDecrypt key m = Inl e"
    by (simp add: aesDecrypt_def Let_def)
  have 5: "createDecipheriv key (slice_buffer m 0 12) = Inr d \<Longrightarrow> setAuthTag d (slice_buffer m 12 28) = Inr d1 \<Longrightarrow>
      decipher_final (fst (decipher_update d1 (slice_buffer_from m 28))) = Inl e \<Longrightarrow>
      aesDecrypt key m = Inl e"
    by (simp add: aesDecrypt_def Let_def split_def)
  have 6: "BobDecrypt dh bobPrivateKey alicePublicKey wire = Inr p \<Longrightarrow>
      (\<exists>s'. dh bobPrivateKey alicePublicKey = Inr s'
         \<and> take (length (slice_buffer wire 28 44))
              (gcm_tag (sha256 (s' @ slice_buffer wire 0 16)) (slice_buffer wire 16 28) (slice_buffer_from wire 44))
             = slice_buffer wire 28 44
         \<and> p = utf8_decode (gcm_crypt (sha256 (s' @ slice_buffer wire 0 16)) (slice_buffer wire 16 28)
                              (slice_buffer_from wire 44)))"
    by (rule BobDecrypt_success)
  show ?thesis
    using 1 2 3 4 5 6 by blast
qed

theorem error_propagation_witness:
  "failing_dh 1 2 = Inl ERR_CRYPTO_OPERATION_FAILED
   \<and> BobDecrypt failing_dh 1 2 [] = Inl ERR_CRYPTO_OPERATION_FAILED
   \<and> example_dh 5 (example_public 3) = Inr (replicate 32 126)
   \<and> BobDecrypt example_dh 5 (example_public 3) []
       = aesDecrypt (sha256 (replicate 32 126 @ slice_buffer [] 0 16)) (slice_buffer_from [] 16)
   \<and> createDecipheriv (sha256 []) (slice_buffer [] 0 12) = Inl ERR_CRYPTO_INVALID_IV
   \<and> aesDecrypt (sha256 []) [] = Inl ERR_CRYPTO_INVALID_IV
   \<and> createDecipheriv (sha256 []) (slice_buffer (replicate 17 0) 0 12)
       = Inr \<lparr>ckey = sha256 [], civ = replicate 12 0, cdata = [], ctag = []\<rparr>
   \<and> setAuthTag \<lparr>ckey = sha256 [], civ = replicate 12 0, cdata = [], ctag = []\<rparr>
         (slice_buffer (replicate 17 0) 12 28)
       = Inl (ERR_CRYPTO_INVALID_AUTH_TAG 5)
   \<and> aesDecrypt (sha256 []) (replicate 17 0) = Inl (ERR_CRYPTO_INVALID_AUTH_TAG 5)
   \<and> decipher_final
         (fst (decipher_update
                 \<lparr>ckey = sha256 [], civ = replicate 12 0, cdata = [],
                    ctag = flip_low_bit (gcm_tag (sha256 []) (replicate 12 0) [])\<rparr>
                 []))
       = Inl ERR_UNABLE_TO_AUTHENTICATE
   \<and> aesDecrypt (sha256 [])
         (replicate 12 0 @ flip_low_bit (gcm_tag (sha256 []) (replicate 12 0) []))
       = Inl ERR_UNABLE_TO_AUTHENTICATE"
proof -
  let ?K = "sha256 []"
  let ?d = "\<lparr>ckey = ?K, civ = replicate 12 0, cdata = [], ctag = []\<rparr>"
  let ?bad = "flip_low_bit (gcm_tag ?K (replicate 12 0) [])"
  let ?d1 = "\<lparr>ckey = ?K, civ = replicate 12 0, cdata = [], ctag = ?bad\<rparr>"
  let ?m = "replicate 12 0 @ ?bad"
  have a: "BobDecrypt failing_dh 1 2 [] = Inl ERR_CRYPTO_OPERATION_FAILED"
    using error_propagation [where dh = failing_dh and bobPrivateKey = 1 and alicePublicKey = 2
        and e = ERR_CRYPTO_OPERATION_FAILED and wire = "[]" and s = "[]" and p = "[]"
        and key = "[]" and m = "[]" and d = ?d and ?d1.0 = ?d] failing_dh_eq
    by blast
  have b: "BobDecrypt example_dh 5 (example_public 3) []
       = aesDecrypt (sha256 (replicate 32 126 @ slice_buffer [] 0 16)) (slice_buffer_from [] 16)"
    using error_propagation [where dh = example_dh and bobPrivateKey = 5
        and alicePublicKey = "example_public 3" and s = "replicate 32 126" and wire = "[]"
        and e = ERR_CRYPTO_INVALID_IV and p = "[]" and key = "[]" and m = "[]" and d = ?d
        and ?d1.0 = ?d]
      example_dh_bob
    by blast
  have c0: "createDecipheriv ?K (slice_buffer [] 0 12) = Inl ERR_CRYPTO_INVALID_IV"
    by (simp add: createDecipheriv_def createCipheriv_def slice_buffer_def)
  have c: "aesDecrypt ?K [] = Inl ERR_CRYPTO_INVALID_IV"
    using error_propagation [where key = ?K and m = "[]" and e = ERR_CRYPTO_INVALID_IV
        and dh = example_dh and bobPrivateKey = 5 and alicePublicKey = "example_public 3"
        and s = "replicate 32 126" and wire = "[]" and p = "[]" and d = ?d and ?d1.0 = ?d] c0
    by blast
  have d0: "createDecipheriv ?K (slice_buffer (replicate 17 0) 0 12) = Inr ?d"
    by (simp add: createDecipheriv_def createCipheriv_def slice_buffer_def)
  have d1: "setAuthTag ?d (slice_buffer (replicate 17 0) 12 28) = Inl (ERR_CRYPTO_INVALID_AUTH_TAG 5)"
    by (simp add: setAuthTag_def slice_buffer_def)
  have d: "aesDecrypt ?K (replicate 17 0) = Inl (ERR_CRYPTO_INVALID_AUTH_TAG 5)"
    using error_propagation [where key = ?K and m = "replicate 17 0" and d = ?d
        and e = "ERR_CRYPTO_INVALID_AUTH_TAG 5" and dh = example_dh and bobPrivateKey = 5 and alicePublicKey = "example_public 3"
        and s = "replicate 32 126" and wire = "[]" and p = "[]" and ?d1.0 = ?d] d0 d1
    by blast
  have e0: "createDecipheriv ?K (slice_buffer ?m 0 12) = Inr ?d"
    by (simp add: createDecipheriv_def createCipheriv_def slice_buffer_def)
  have e1: "setAuthTag ?d (slice_buffer ?m 12 28) = Inr ?d1"
    by (simp add: setAuthTag_def slice_buffer_def)
  have e2: "decipher_final (fst (decipher_update ?d1 [])) = Inl ERR_UNABLE_TO_AUTHENTICATE"
    using tampered_tag_neq [of ?K "replicate 12 0" "[]"]
    by (simp add: decipher_final_def decipher_update_def Let_def)
  have e3: "slice_buffer_from ?m 28 = []"
    by (simp add: slice_buffer_from_def)
  have e: "aesDecrypt ?K ?m = Inl ERR_UNABLE_TO_AUTHENTICATE"
    using error_propagation [where key = ?K and m = ?m and d = ?d and ?d1.0 = ?d1
        and e = ERR_UNABLE_TO_AUTHENTICATE and dh = example_dh and bobPrivateKey = 5 and alicePublicKey = "example_public 3"
        and s = "replicate 32 126" and wire = "[]" and p = "[]"] e0 e1 e2 e3
    by (simp only:)
  show ?thesis
    using a b c0 c d0 d1 d e2 e failing_dh_eq example_dh_bob by blast
qed

text \<open>
  C10.  The plaintext interface is text: when the two key agreements yield the same secret,
  what Bob obtains is the UTF-8 decoding of the UTF-8 encoding of Alice's message, and this
  is the message itself exactly when the message has no unpaired surrogate.
\<close>

theorem utf8_text_interface:
  assumes "dh (fst A) (snd B) = Inr s" "dh (fst B) (snd A) = Inr s"
  shows "exchange dh A B message rng = Inr (utf8_decode (utf8_encode message))
         \<and> (utf8_decode (utf8_encode message) = message \<longleftrightarrow> well_formed message)"
  using assms by (simp add: exchange_eq utf8_roundtrip_iff)

theorem utf8_text_interface_witness:
  "example_dh (fst (3, example_public 3)) (snd (5, example_public 5)) = Inr (replicate 32 126)
   \<and> example_dh (fst (5, example_public 5)) (snd (3, example_public 3)) = Inr (replicate 32 126)
   \<and> exchange example_dh (3, example_public 3) (5, example_public 5)
        [0x48, 0xD83D, 0xDE00, 0xDC00] counting_rng
       = Inr [0x48, 0xD83D, 0xDE00, 0xFFFD]
   \<and> \<not> well_formed [0x48, 0xD83D, 0xDE00, 0xDC00]"
proof -
  have "utf8_decode (utf8_encode [0x48, 0xD83D, 0xDE00, 0xDC00]) = [0x48, 0xD83D, 0xDE00, 0xFFFD]"
    unfolding utf8_decode_encode by (simp add: is_high_def is_low_def)
  moreover have "\<not> well_formed [0x48, 0xD83D, 0xDE00, 0xDC00]"
    by (simp add: is_high_def is_low_def)
  ultimately show ?thesis
    using utf8_text_interface [of example_dh "(3, example_public 3)" "(5, example_public 5)"
        "replicate 32 126" "[0x48, 0xD83D, 0xDE00, 0xDC00]" counting_rng]
      example_dh_alice example_dh_bob
    by simp
qed

end
